theory Spec2Isabelle
  imports Complex_Main "HOL-Library.Word" "HOL-Library.Signed_Division"
begin

section \<open>Machine integers of the target\<close>

text \<open>
  The program is built for the ESP32 (SensESP, \<^verbatim>\<open>IRAM_ATTR\<close>), an ILP32 target:
  \<^verbatim>\<open>unsigned long\<close>, \<^verbatim>\<open>long\<close> and \<^verbatim>\<open>int\<close> are all 32 bits wide. All three are
  modelled as \<open>32 word\<close>; \<open>+\<close>, \<open>-\<close> and \<open>*\<close> wrap around. The signedness of a C
  expression decides which comparison and which division the model uses: the
  unsigned ones are the word operations \<open><\<close>, \<open>div\<close>, \<open>mod\<close>, the signed ones
  are \<open><s\<close>, \<open>sdiv_long\<close> and \<open>smod_long\<close> below (truncating towards zero, as
  C does). Signed overflow is modelled as the wrap-around the hardware
  performs. Division by zero is the one operation that traps; it is written as
  \<open>None\<close>.
\<close>

type_synonym ulong = "32 word"
type_synonym long = "32 word"
type_synonym cint = "32 word"

definition sdiv_long :: "long \<Rightarrow> long \<Rightarrow> long" where
  "sdiv_long a b = word_of_int (sint a sdiv sint b)"

definition smod_long :: "long \<Rightarrow> long \<Rightarrow> long" where
  "smod_long a b = word_of_int (sint a smod sint b)"

definition udiv :: "ulong \<Rightarrow> ulong \<Rightarrow> ulong option" where
  "udiv a b = (if b = 0 then None else Some (a div b))"

text \<open>\<^verbatim>\<open>abs\<close> on \<^verbatim>\<open>int\<close>; the most negative value is its own negation.\<close>

definition abs_int :: "cint \<Rightarrow> cint" where
  "abs_int x = (if x <s 0 then - x else x)"

section \<open>Single-precision floating point\<close>

text \<open>
  The filter gain is a \<^verbatim>\<open>float\<close>; the model takes a float as the rational
  number it denotes. \<open>fl32\<close> rounds a rational to binary32 the way the
  conversion from \<^verbatim>\<open>int\<close> and the multiplication do: to the nearest value
  with 24 significant bits, ties to the even significand, with the fixed
  step \<open>2^-149\<close> below \<open>2^-126\<close>. \<open>exponent32\<close> is the binary exponent
  of a non-negative value, found by halving a value from 2 on and doubling a
  value below 1, and kept within -126 and 127. Results beyond the largest
  float (infinities) are not modelled.
\<close>

fun halvings :: "nat \<Rightarrow> rat \<Rightarrow> int" where
  "halvings 0 x = 0"
| "halvings (Suc n) x = (if x < 2 then 0 else halvings n (x / 2) + 1)"

fun doublings :: "nat \<Rightarrow> rat \<Rightarrow> int" where
  "doublings 0 x = 0"
| "doublings (Suc n) x = (if 1 \<le> x then 0 else doublings n (2 * x) - 1)"

definition exponent32 :: "rat \<Rightarrow> int" where
  "exponent32 x = (if 1 \<le> x then halvings 127 x else doublings 126 x)"

definition round_to_even :: "rat \<Rightarrow> int" where
  "round_to_even q =
     (let f = \<lfloor>q\<rfloor>; r = q - of_int f
      in if r < 1 / 2 then f else if 1 / 2 < r then f + 1 else if even f then f else f + 1)"

definition fl32 :: "rat \<Rightarrow> rat" where
  "fl32 x =
     (if x = 0 then 0
      else let u = 2 powi (exponent32 \<bar>x\<bar> - 23)
           in of_int (round_to_even (x / u)) * u)"

text \<open>
  \<^verbatim>\<open>round\<close>: to the nearest integer, halves away from zero. The conversion
  of its result to \<^verbatim>\<open>int\<close> is \<open>word_of_int\<close>.
\<close>

definition c_round :: "rat \<Rightarrow> int" where
  "c_round x = (if 0 \<le> x then \<lfloor>x + 1 / 2\<rfloor> else \<lceil>x - 1 / 2\<rceil>)"

section \<open>Constants\<close>

definition DEBOUNCE :: ulong where "DEBOUNCE = 10000"
definition TIMEOUT :: ulong where "TIMEOUT = 1500000"

definition BAND_0 :: cint where "BAND_0 = 5 * 100"
definition BAND_1 :: cint where "BAND_1 = 40 * 100"

definition SPEED_DEV_LIMIT_0 :: cint where "SPEED_DEV_LIMIT_0 = 5 * 100"
definition SPEED_DEV_LIMIT_1 :: cint where "SPEED_DEV_LIMIT_1 = 10 * 100"
definition SPEED_DEV_LIMIT_2 :: cint where "SPEED_DEV_LIMIT_2 = 30 * 100"

definition DIR_DEV_LIMIT_0 :: cint where "DIR_DEV_LIMIT_0 = 25"
definition DIR_DEV_LIMIT_1 :: cint where "DIR_DEV_LIMIT_1 = 18"
definition DIR_DEV_LIMIT_2 :: cint where "DIR_DEV_LIMIT_2 = 10"

section \<open>State\<close>

text \<open>
  The volatile globals of \<^verbatim>\<open>main.cpp\<close> and the two function-static variables
  \<open>prevSpeed\<close> and \<open>prevDir\<close> of \<^verbatim>\<open>calcWindSpeedAndDir\<close>.
\<close>

record state =
  speedPulse :: ulong
  dirPulse :: ulong
  speedTime :: ulong
  directionTime :: ulong
  speedOut :: cint
  dirOut :: cint
  ignoreNextReading :: bool
  rps :: long
  prevSpeed :: cint
  prevDir :: cint

text \<open>The two configurables read in each cycle.\<close>

record config =
  filter_gain :: rat
  dir_offset :: cint

definition boot :: state where
  "boot = \<lparr>speedPulse = 0, dirPulse = 0, speedTime = 0, directionTime = 0,
           speedOut = 0, dirOut = 0, ignoreNextReading = False, rps = 0,
           prevSpeed = 0, prevDir = 0\<rparr>"

section \<open>Interrupt handlers\<close>

text \<open>
  \<open>readWindSpeed\<close> calls \<^verbatim>\<open>micros()\<close> three times; the three readings are the
  parameters \<open>t1\<close>, \<open>t2\<close>, \<open>t3\<close>. \<open>low\<close> is \<^verbatim>\<open>digitalRead(pin) == LOW\<close>.
  The test \<^verbatim>\<open>dirPulse - speedPulse >= 0\<close> is on \<^verbatim>\<open>unsigned long\<close>.
\<close>

definition readWindSpeed :: "ulong \<Rightarrow> ulong \<Rightarrow> ulong \<Rightarrow> bool \<Rightarrow> state \<Rightarrow> state" where
  "readWindSpeed t1 t2 t3 low s =
     (if t1 - speedPulse s > DEBOUNCE \<and> low then
        let s1 = s\<lparr>speedTime := t2 - speedPulse s\<rparr>;
            s2 = (if dirPulse s1 - speedPulse s1 \<ge> 0
                  then s1\<lparr>directionTime := dirPulse s1 - speedPulse s1\<rparr>
                  else s1)
        in s2\<lparr>speedPulse := t3\<rparr>
      else s)"

definition readWindDir :: "ulong \<Rightarrow> ulong \<Rightarrow> bool \<Rightarrow> state \<Rightarrow> state" where
  "readWindDir t1 t2 low s =
     (if t1 - dirPulse s > DEBOUNCE \<and> low then s\<lparr>dirPulse := t2\<rparr> else s)"

section \<open>Plausibility checks\<close>

definition checkSpeedDev :: "long \<Rightarrow> cint \<Rightarrow> bool" where
  "checkSpeedDev cmps dev =
     (if cmps <s BAND_0 then abs_int dev <s SPEED_DEV_LIMIT_0
      else if cmps <s BAND_1 then abs_int dev <s SPEED_DEV_LIMIT_1
      else abs_int dev <s SPEED_DEV_LIMIT_2)"

definition checkDirDev :: "long \<Rightarrow> cint \<Rightarrow> bool" where
  "checkDirDev cmps dev =
     (if cmps <s BAND_0
      then abs_int dev <s DIR_DEV_LIMIT_0 \<or> 360 - DIR_DEV_LIMIT_0 <s abs_int dev
      else if cmps <s BAND_1
      then abs_int dev <s DIR_DEV_LIMIT_1 \<or> 360 - DIR_DEV_LIMIT_1 <s abs_int dev
      else abs_int dev <s DIR_DEV_LIMIT_2 \<or> 360 - DIR_DEV_LIMIT_2 <s abs_int dev)"

section \<open>The decode cycle\<close>

text \<open>
  The calibration curve (the three-way \<^verbatim>\<open>if\<close> on \<open>rps\<close>) followed by the
  clamp of negative speeds.
\<close>

definition calibrate :: "long \<Rightarrow> long" where
  "calibrate r =
     (let cmps =
        (if r <s 323 then
           sdiv_long (r * r * (- 11)) 22369 + sdiv_long (293 * r) 223 - 12
         else if r <s 5436 then
           sdiv_long (sdiv_long (r * r) 2) 22369 + sdiv_long (220 * r) 223 + 96
         else
           sdiv_long (r * r * 11) 22369 - sdiv_long (957 * r) 223 + 28664)
      in if cmps <s 0 then 0 else cmps)"

text \<open>
  The direction from the quotient \<open>q = directionTime' * 360 / speedTime'\<close>.
  The subtraction of the offset and the remainder are on \<^verbatim>\<open>unsigned long\<close>
  (the \<^verbatim>\<open>int\<close> offset is converted); the result is stored in a \<^verbatim>\<open>long\<close> and
  then reversed.
\<close>

definition windDirectionOf :: "cint \<Rightarrow> ulong \<Rightarrow> long" where
  "windDirectionOf offset q = 360 - (q - offset) mod 360"

text \<open>
  The output filter: shortest path, gain, remainder, lift of negatives.
  \<open>scaledDelta\<close> is \<^verbatim>\<open>(int)(round(filter_gain->get_value() * delta))\<close>: the
  \<^verbatim>\<open>int\<close> delta is converted to \<^verbatim>\<open>float\<close> and the product is a
  \<^verbatim>\<open>float\<close> product.
\<close>

definition shortestDelta :: "cint \<Rightarrow> cint" where
  "shortestDelta delta =
     (if delta <s - 180 then delta + 360
      else if 180 <s delta then delta - 360
      else delta)"

definition scaledDelta :: "rat \<Rightarrow> cint \<Rightarrow> cint" where
  "scaledDelta gain delta =
     word_of_int (c_round (fl32 (gain * fl32 (of_int (sint delta)))))"

definition filterDir :: "rat \<Rightarrow> long \<Rightarrow> cint \<Rightarrow> cint" where
  "filterDir gain windDirection dirOut0 =
     (let delta = shortestDelta (windDirection - dirOut0);
          d = smod_long (dirOut0 + scaledDelta gain delta) 360
      in if d <s 0 then d + 360 else d)"

text \<open>
  The body of the branch taken when the speed is accepted, after \<open>speedOut\<close>
  was written: the direction part of \<^verbatim>\<open>calcWindSpeedAndDir\<close>.
\<close>

definition resolveDirection :: "config \<Rightarrow> ulong \<Rightarrow> ulong \<Rightarrow> long \<Rightarrow> state \<Rightarrow> state option" where
  "resolveDirection cfg speedTime' directionTime' cmps s =
     (if directionTime' > speedTime' then Some s
      else
        case udiv (directionTime' * 360) speedTime' of
          None \<Rightarrow> None
        | Some q \<Rightarrow>
            let windDirection = windDirectionOf (dir_offset cfg) q;
                dev = windDirection - prevDir s;
                s1 = (if checkDirDev cmps dev
                      then s\<lparr>dirOut := filterDir (filter_gain cfg) windDirection (dirOut s)\<rparr>
                      else s)
            in Some (s1\<lparr>prevDir := windDirection\<rparr>))"

text \<open>
  \<open>now\<close> is the reading of \<^verbatim>\<open>micros()\<close> after the snapshot. The snapshot itself
  is taken with interrupts disabled, so it is the four fields of one state.
  The two closing \<^verbatim>\<open>set_input\<close> calls hand \<open>speedOut / 100\<close> and
  \<open>dirOut * 0.0174533\<close> to the Signal K outputs; they write nothing of this
  state and are functions of \<open>speedOut\<close> and \<open>dirOut\<close> alone.
\<close>

definition snapSpeedTime :: "ulong \<Rightarrow> state \<Rightarrow> ulong" where
  "snapSpeedTime now s = (if now - speedPulse s > TIMEOUT then 0 else speedTime s)"

definition calcWindSpeedAndDir :: "ulong \<Rightarrow> config \<Rightarrow> state \<Rightarrow> state option" where
  "calcWindSpeedAndDir now cfg s =
     (let speedTime' = snapSpeedTime now s;
          directionTime' = directionTime s
      in if speedTime' > 0 then
           case udiv 100000000 speedTime' of
             None \<Rightarrow> None
           | Some r \<Rightarrow>
               let s1 = s\<lparr>rps := r\<rparr>;
                   cmps = calibrate (rps s1);
                   dev = cmps - prevSpeed s1
               in if checkSpeedDev cmps dev then
                    map_option (\<lambda>s3. s3\<lparr>prevSpeed := cmps\<rparr>)
                      (resolveDirection cfg speedTime' directionTime' cmps (s1\<lparr>speedOut := cmps\<rparr>))
                  else Some (s1\<lparr>ignoreNextReading := True, prevSpeed := cmps\<rparr>)
         else Some (s\<lparr>speedOut := 0, prevSpeed := 0\<rparr>))"

section \<open>Names for the locals of a cycle\<close>

text \<open>
  The values the cycle computes on its way, as functions of the time, the
  configuration and the state it starts in: \<open>rps\<close>, \<open>cmps\<close> after the
  clamp, \<open>windDirection\<close> after the reversal, and the verdicts of the two
  plausibility checks.
\<close>

definition cycleRps :: "ulong \<Rightarrow> state \<Rightarrow> long" where
  "cycleRps now s = 100000000 div snapSpeedTime now s"

definition cycleCmps :: "ulong \<Rightarrow> state \<Rightarrow> long" where
  "cycleCmps now s = calibrate (cycleRps now s)"

definition cycleDir :: "ulong \<Rightarrow> config \<Rightarrow> state \<Rightarrow> long" where
  "cycleDir now cfg s =
     windDirectionOf (dir_offset cfg) (directionTime s * 360 div snapSpeedTime now s)"

definition speedAccepted :: "ulong \<Rightarrow> state \<Rightarrow> bool" where
  "speedAccepted now s = checkSpeedDev (cycleCmps now s) (cycleCmps now s - prevSpeed s)"

definition dirAccepted :: "ulong \<Rightarrow> config \<Rightarrow> state \<Rightarrow> bool" where
  "dirAccepted now cfg s = checkDirDev (cycleCmps now s) (cycleDir now cfg s - prevDir s)"

section \<open>Runs of the program\<close>

text \<open>
  A run starts in \<open>boot\<close> and is any sequence of interrupts and decode
  cycles, with any clock readings, pin levels and configuration values. An
  interrupt that arrives during a cycle after the snapshot writes only fields
  the rest of the cycle does not read, so it is the same as one arriving after
  the cycle.
\<close>

inductive reachable :: "state \<Rightarrow> bool" where
  at_boot: "reachable boot"
| speed_pulse: "reachable s \<Longrightarrow> reachable (readWindSpeed t1 t2 t3 low s)"
| dir_pulse: "reachable s \<Longrightarrow> reachable (readWindDir t1 t2 low s)"
| decode: "reachable s \<Longrightarrow> calcWindSpeedAndDir now cfg s = Some s' \<Longrightarrow> reachable s'"

text \<open>
  Runs in which the clock does not run backwards inside the speed handler:
  measured from the last speed pulse, its second reading is not earlier than
  its first. Every interval such a run records is longer than the debounce
  time.
\<close>

inductive clocked :: "state \<Rightarrow> bool" where
  clocked_boot: "clocked boot"
| clocked_speed: "clocked s \<Longrightarrow> t1 - speedPulse s \<le> t2 - speedPulse s \<Longrightarrow>
    clocked (readWindSpeed t1 t2 t3 low s)"
| clocked_dir: "clocked s \<Longrightarrow> clocked (readWindDir t1 t2 low s)"
| clocked_decode: "clocked s \<Longrightarrow> calcWindSpeedAndDir now cfg s = Some s' \<Longrightarrow> clocked s'"

definition debounced :: "state \<Rightarrow> bool" where
  "debounced s \<longleftrightarrow> speedTime s = 0 \<or> DEBOUNCE < speedTime s"

text \<open>
  \<^verbatim>\<open>micros()\<close> at a time given in microseconds since boot: the counter has 32
  bits and starts again at 0 every \<open>2^32\<close> microseconds.
\<close>

definition micros :: "int \<Rightarrow> ulong" where
  "micros t = word_of_int t"

text \<open>Decode cycles one after the other, at the listed clock readings.\<close>

fun cycles :: "config \<Rightarrow> ulong list \<Rightarrow> state \<Rightarrow> state option" where
  "cycles cfg [] s = Some s"
| "cycles cfg (now # later) s =
     (case calcWindSpeedAndDir now cfg s of
        None \<Rightarrow> None
      | Some s' \<Rightarrow> cycles cfg later s')"

text \<open>What every reachable state satisfies.\<close>

definition in_range :: "state \<Rightarrow> bool" where
  "in_range s \<longleftrightarrow>
     0 \<le> sint (prevSpeed s) \<and>
     0 \<le> sint (dirOut s) \<and> sint (dirOut s) < 360 \<and>
     0 \<le> sint (prevDir s) \<and> sint (prevDir s) \<le> 360"

text \<open>The state with the rejection flag blanked.\<close>

definition withoutFlag :: "state \<Rightarrow> state" where
  "withoutFlag s = s\<lparr>ignoreNextReading := False\<rparr>"

section \<open>The formulas of the specification\<close>

text \<open>
  The calibration as the specification words it, on unbounded integers, with
  each division truncating (\<open>sdiv\<close> on \<open>int\<close>) and the clamp at 0. The word
  computation \<open>calibrate\<close> above is compared with it.
\<close>

definition band_A :: "int \<Rightarrow> int" where
  "band_A r = (r * r * (- 11)) sdiv 22369 + (293 * r) sdiv 223 - 12"

definition band_B :: "int \<Rightarrow> int" where
  "band_B r = ((r * r) sdiv 2) sdiv 22369 + (220 * r) sdiv 223 + 96"

definition band_C :: "int \<Rightarrow> int" where
  "band_C r = (r * r * 11) sdiv 22369 - (957 * r) sdiv 223 + 28664"

definition speed_spec :: "int \<Rightarrow> int" where
  "speed_spec r =
     (let cmps = (if r < 323 then band_A r else if r < 5436 then band_B r else band_C r)
      in if cmps < 0 then 0 else cmps)"

text \<open>The deviation limits per speed band, as the specification tabulates them.\<close>

definition speedDevLimit :: "int \<Rightarrow> int" where
  "speedDevLimit cmps = (if cmps < 500 then 500 else if cmps < 4000 then 1000 else 3000)"

definition dirDevLimit :: "int \<Rightarrow> int" where
  "dirDevLimit cmps = (if cmps < 500 then 25 else if cmps < 4000 then 18 else 10)"

text \<open>The shortest-path correction of the smoother, as the specification words it.\<close>

definition wrapDelta :: "int \<Rightarrow> int" where
  "wrapDelta e = (if e < - 180 then e + 360 else if 180 < e then e - 360 else e)"

section \<open>Example runs\<close>

text \<open>
  The configuration the program starts with, and runs from boot that the
  witnesses below evaluate: a first speed pulse one second, a tenth of a
  second and a third of a second after boot; a direction pulse half a second
  and a speed pulse one second after boot (the vane half a turn from its
  reference); a direction pulse 27778 microseconds after boot with the same
  speed pulse (the vane ten degrees from it); and a direction pulse at 150000
  followed by a speed pulse at 200000.
\<close>

definition default_config :: config where
  "default_config = \<lparr>filter_gain = 1 / 4, dir_offset = 0\<rparr>"

definition one_second_run :: state where
  "one_second_run = readWindSpeed 1000000 1000000 1000000 True boot"

definition gust_run :: state where
  "gust_run = readWindSpeed 100000 100000 100000 True boot"


definition missed_vane_run :: state where
  "missed_vane_run =
     readWindSpeed 200000 200000 200000 True (readWindDir 150000 150000 True boot)"

definition half_turn_run :: state where
  "half_turn_run =
     readWindSpeed 1000000 1000000 1000000 True (readWindDir 500000 500000 True boot)"

definition near_north_run :: state where
  "near_north_run =
     readWindSpeed 1000000 1000000 1000000 True (readWindDir 27778 27778 True boot)"

section \<open>Word arithmetic that does not wrap\<close>

lemma sint_in_range32:
  "- 2147483648 \<le> k \<Longrightarrow> k < 2147483648 \<Longrightarrow> sint (word_of_int k :: 32 word) = k"
  by (simp add: sint_sbintrunc' signed_take_bit_int_eq_self)


lemma sint_add32:
  "- 2147483648 \<le> sint a + sint b \<Longrightarrow> sint a + sint b < 2147483648 \<Longrightarrow>
   sint (a + b :: 32 word) = sint a + sint b"
  by (simp add: sint_word_ariths signed_take_bit_int_eq_self)

lemma sint_sub32:
  "- 2147483648 \<le> sint a - sint b \<Longrightarrow> sint a - sint b < 2147483648 \<Longrightarrow>
   sint (a - b :: 32 word) = sint a - sint b"
  by (simp add: sint_word_ariths signed_take_bit_int_eq_self)

lemma sint_bounds32:
  "- 2147483648 \<le> sint (a :: 32 word)" "sint (a :: 32 word) < 2147483648"
  using sint_ge [of a] sint_lt [of a] by simp_all

lemma sint_eq_uint32:
  assumes "uint w < 2147483648"
  shows "sint (w :: 32 word) = uint w"
proof -
  have "- 2147483648 \<le> uint w"
    using uint_nonnegative [of w] by linarith
  with assms show ?thesis
    by (simp add: sint_uint signed_take_bit_int_eq_self)
qed


lemma sint_smod_long:
  assumes "0 < sint b"
  shows "sint (smod_long a b) = sint a smod sint b"
proof -
  have "sint a smod sint b \<in> {- \<bar>sint b\<bar> + 1..\<bar>sint b\<bar> - 1}"
    by (rule smod_int_range) (use assms in simp)
  then show ?thesis
    unfolding smod_long_def using sint_bounds32 [of b] assms
    by (intro sint_in_range32) auto
qed

section \<open>What the interrupt handlers record\<close>

lemma readWindSpeed_accepted:
  assumes "DEBOUNCE < t1 - speedPulse s" and "low"
  shows "readWindSpeed t1 t2 t3 low s =
    s\<lparr>speedTime := t2 - speedPulse s, directionTime := dirPulse s - speedPulse s,
      speedPulse := t3\<rparr>"
  using assms by (simp add: readWindSpeed_def Let_def)

lemma readWindSpeed_ignored:
  assumes "\<not> (DEBOUNCE < t1 - speedPulse s \<and> low)"
  shows "readWindSpeed t1 t2 t3 low s = s"
  using assms unfolding readWindSpeed_def by (simp only: if_False)

text \<open>
  When the first two clock readings of the handler agree, the interval it
  records is longer than the debounce time.
\<close>

lemma readWindSpeed_interval:
  "readWindSpeed t t t3 low s = s \<or> DEBOUNCE < speedTime (readWindSpeed t t t3 low s)"
  by (cases "DEBOUNCE < t - speedPulse s \<and> low")
    (simp_all add: readWindSpeed_accepted readWindSpeed_ignored)

section \<open>The four ways through a cycle\<close>

lemma calc_stalled:
  "snapSpeedTime now s = 0 \<Longrightarrow>
   calcWindSpeedAndDir now cfg s = Some (s\<lparr>speedOut := 0, prevSpeed := 0\<rparr>)"
  by (simp add: calcWindSpeedAndDir_def)

lemma calc_rejected:
  assumes "snapSpeedTime now s \<noteq> 0" and "\<not> speedAccepted now s"
  shows "calcWindSpeedAndDir now cfg s =
     Some (s\<lparr>rps := cycleRps now s, ignoreNextReading := True,
             prevSpeed := cycleCmps now s\<rparr>)"
  using assms
  by (simp add: calcWindSpeedAndDir_def udiv_def Let_def word_greater_zero_iff
      speedAccepted_def cycleCmps_def cycleRps_def)

lemma calc_accepted_late:
  assumes "snapSpeedTime now s \<noteq> 0" and "speedAccepted now s"
    and "directionTime s > snapSpeedTime now s"
  shows "calcWindSpeedAndDir now cfg s =
     Some (s\<lparr>rps := cycleRps now s, speedOut := cycleCmps now s,
             prevSpeed := cycleCmps now s\<rparr>)"
  using assms
  by (simp add: calcWindSpeedAndDir_def resolveDirection_def udiv_def Let_def
      word_greater_zero_iff speedAccepted_def cycleCmps_def cycleRps_def)

lemma calc_accepted_dir:
  assumes "snapSpeedTime now s \<noteq> 0" and "speedAccepted now s"
    and "directionTime s \<le> snapSpeedTime now s"
  shows "calcWindSpeedAndDir now cfg s =
     Some (s\<lparr>rps := cycleRps now s, speedOut := cycleCmps now s,
             dirOut := (if dirAccepted now cfg s
                        then filterDir (filter_gain cfg) (cycleDir now cfg s) (dirOut s)
                        else dirOut s),
             prevDir := cycleDir now cfg s,
             prevSpeed := cycleCmps now s\<rparr>)"
  using assms
  by (simp add: calcWindSpeedAndDir_def resolveDirection_def udiv_def Let_def
      word_greater_zero_iff not_less [symmetric] speedAccepted_def dirAccepted_def
      cycleCmps_def cycleRps_def cycleDir_def)

lemma calc_cases:
  obtains
    (stalled) "snapSpeedTime now s = 0"
  | (rejected) "snapSpeedTime now s \<noteq> 0" "\<not> speedAccepted now s"
  | (late) "snapSpeedTime now s \<noteq> 0" "speedAccepted now s"
      "directionTime s > snapSpeedTime now s"
  | (resolved) "snapSpeedTime now s \<noteq> 0" "speedAccepted now s"
      "directionTime s \<le> snapSpeedTime now s"
  by (meson not_less)

lemma snapSpeedTime_flag [simp]:
  "snapSpeedTime now (s\<lparr>ignoreNextReading := b\<rparr>) = snapSpeedTime now s"
  by (simp add: snapSpeedTime_def)

lemma calc_flag_blind:
  "map_option withoutFlag (calcWindSpeedAndDir now cfg (s\<lparr>ignoreNextReading := b\<rparr>)) =
   map_option withoutFlag (calcWindSpeedAndDir now cfg s)"
  by (simp add: calcWindSpeedAndDir_def resolveDirection_def udiv_def Let_def
      withoutFlag_def option.map_comp comp_def)

section \<open>Ranges kept by every run\<close>

lemma calibrate_nonneg: "0 \<le> sint (calibrate r)"
  by (simp add: calibrate_def Let_def word_sless_alt)

lemma uint_rem360: "uint ((w :: 32 word) mod 360) < 360"
  by (simp add: uint_mod_distrib)

lemma windDirectionOf_uint:
  "uint (windDirectionOf off q) = 360 - uint ((q - off) mod 360)"
proof -
  have "uint ((q - off) mod 360) \<le> uint (360 :: 32 word)"
    using uint_rem360 [of "q - off"] by simp
  then have "uint (360 - (q - off) mod 360) = uint (360 :: 32 word) - uint ((q - off) mod 360)"
    by (simp only: uint_sub_lem)
  then show ?thesis by (simp add: windDirectionOf_def)
qed

lemma windDirectionOf_sint:
  "sint (windDirectionOf off q) = 360 - uint ((q - off) mod 360)"
proof -
  have "uint (windDirectionOf off q) < 2147483648"
    unfolding windDirectionOf_uint
    using uint_nonnegative [of "(q - off) mod 360"] by linarith
  then show ?thesis
    by (simp add: sint_eq_uint32 windDirectionOf_uint)
qed

lemma windDirectionOf_range:
  "1 \<le> sint (windDirectionOf off q)" "sint (windDirectionOf off q) \<le> 360"
  using uint_rem360 [of "q - off"] by (simp_all add: windDirectionOf_sint)

lemma filterDir_range:
  "0 \<le> sint (filterDir g d s)" "sint (filterDir g d s) < 360"
proof -
  define x where "x = s + scaledDelta g (shortestDelta (d - s))"
  define m where "m = smod_long x 360"
  have m: "sint m = sint x smod 360"
    unfolding m_def by (simp add: sint_smod_long)
  have "sint x smod 360 \<in> {- \<bar>360\<bar> + 1..\<bar>360\<bar> - 1}"
    by (rule smod_int_range) simp
  then have r: "- 359 \<le> sint m" "sint m \<le> 359"
    using m by simp_all
  have f: "filterDir g d s = (if m <s 0 then m + 360 else m)"
    by (simp add: filterDir_def Let_def m_def x_def)
  have a: "sint m < 0 \<Longrightarrow> sint (m + 360) = sint m + 360"
    using r by (subst sint_add32) simp_all
  show "0 \<le> sint (filterDir g d s)" "sint (filterDir g d s) < 360"
    using r a by (auto simp add: f word_sless_alt)
qed

lemma in_range_boot: "in_range boot"
  by (simp add: in_range_def boot_def)

lemma in_range_readWindSpeed: "in_range s \<Longrightarrow> in_range (readWindSpeed t1 t2 t3 low s)"
  by (simp add: in_range_def readWindSpeed_def Let_def)

lemma in_range_readWindDir: "in_range s \<Longrightarrow> in_range (readWindDir t1 t2 low s)"
  by (simp add: in_range_def readWindDir_def)

lemma in_range_calc:
  assumes "in_range s" and "calcWindSpeedAndDir now cfg s = Some s'"
  shows "in_range s'"
proof (cases rule: calc_cases [of now s])
  case stalled
  with assms show ?thesis by (auto simp add: calc_stalled in_range_def)
next
  case rejected
  with assms show ?thesis
    by (auto simp add: calc_rejected in_range_def cycleCmps_def calibrate_nonneg)
next
  case late
  with assms show ?thesis
    by (auto simp add: calc_accepted_late in_range_def cycleCmps_def calibrate_nonneg)
next
  case resolved
  have "1 \<le> sint (cycleDir now cfg s)" "sint (cycleDir now cfg s) \<le> 360"
    by (simp_all add: cycleDir_def windDirectionOf_range)
  with resolved assms show ?thesis
    by (auto simp add: calc_accepted_dir in_range_def cycleCmps_def calibrate_nonneg filterDir_range)
qed

lemma reachable_in_range: "reachable s \<Longrightarrow> in_range s"
  by (induction rule: reachable.induct)
    (simp_all add: in_range_boot in_range_readWindSpeed in_range_readWindDir in_range_calc)

section \<open>The calibration in words and in integers\<close>












section \<open>The plausibility checks in integers\<close>

lemma sint_neg32:
  assumes "- 2147483648 < sint (x :: 32 word)"
  shows "sint (- x) = - sint x"
proof -
  have "sint (0 - x) = sint (0 :: 32 word) - sint x"
    using assms sint_bounds32 [of x] by (intro sint_sub32) simp_all
  then show ?thesis by simp
qed

lemma abs_int_sint:
  assumes "- 2147483648 < sint x"
  shows "sint (abs_int x) = \<bar>sint x\<bar>"
  using assms by (simp add: abs_int_def word_sless_alt sint_neg32)

lemma checkSpeedDev_iff:
  assumes "- 2147483648 < sint dev"
  shows "checkSpeedDev cmps dev \<longleftrightarrow> \<bar>sint dev\<bar> < speedDevLimit (sint cmps)"
  by (simp add: checkSpeedDev_def speedDevLimit_def word_sless_alt abs_int_sint [OF assms]
      BAND_0_def BAND_1_def SPEED_DEV_LIMIT_0_def SPEED_DEV_LIMIT_1_def SPEED_DEV_LIMIT_2_def)

lemma checkDirDev_iff:
  assumes "- 2147483648 < sint dev"
  shows "checkDirDev cmps dev \<longleftrightarrow>
    \<bar>sint dev\<bar> < dirDevLimit (sint cmps) \<or> 360 - dirDevLimit (sint cmps) < \<bar>sint dev\<bar>"
  by (simp add: checkDirDev_def dirDevLimit_def word_sless_alt abs_int_sint [OF assms]
      BAND_0_def BAND_1_def DIR_DEV_LIMIT_0_def DIR_DEV_LIMIT_1_def DIR_DEV_LIMIT_2_def)

lemma speed_dev_sint:
  assumes "in_range s"
  shows "sint (cycleCmps now s - prevSpeed s) = sint (cycleCmps now s) - sint (prevSpeed s)"
proof -
  have "0 \<le> sint (cycleCmps now s)"
    by (simp add: cycleCmps_def calibrate_nonneg)
  moreover have "0 \<le> sint (prevSpeed s)"
    using assms by (simp add: in_range_def)
  ultimately show ?thesis
    using sint_bounds32 [of "cycleCmps now s"] sint_bounds32 [of "prevSpeed s"]
    by (intro sint_sub32) linarith+
qed

lemma speedAccepted_iff:
  assumes "in_range s"
  shows "speedAccepted now s \<longleftrightarrow>
    \<bar>sint (cycleCmps now s) - sint (prevSpeed s)\<bar> < speedDevLimit (sint (cycleCmps now s))"
proof -
  have "0 \<le> sint (cycleCmps now s)"
    by (simp add: cycleCmps_def calibrate_nonneg)
  moreover have "0 \<le> sint (prevSpeed s)"
    using assms by (simp add: in_range_def)
  ultimately have "- 2147483648 < sint (cycleCmps now s - prevSpeed s)"
    using sint_bounds32 [of "cycleCmps now s"] sint_bounds32 [of "prevSpeed s"]
    unfolding speed_dev_sint [OF assms] by linarith
  then show ?thesis
    unfolding speedAccepted_def by (simp add: checkSpeedDev_iff speed_dev_sint [OF assms])
qed

lemma dir_dev_sint:
  assumes "in_range s"
  shows "sint (cycleDir now cfg s - prevDir s) = sint (cycleDir now cfg s) - sint (prevDir s)"
    and "- 360 \<le> sint (cycleDir now cfg s - prevDir s)"
    and "sint (cycleDir now cfg s - prevDir s) \<le> 360"
proof -
  have d: "1 \<le> sint (cycleDir now cfg s)" "sint (cycleDir now cfg s) \<le> 360"
    by (simp_all add: cycleDir_def windDirectionOf_range)
  have p: "0 \<le> sint (prevDir s)" "sint (prevDir s) \<le> 360"
    using assms by (simp_all add: in_range_def)
  show e: "sint (cycleDir now cfg s - prevDir s) = sint (cycleDir now cfg s) - sint (prevDir s)"
    using d p by (intro sint_sub32) linarith+
  show "- 360 \<le> sint (cycleDir now cfg s - prevDir s)"
    "sint (cycleDir now cfg s - prevDir s) \<le> 360"
    unfolding e using d p by linarith+
qed

lemma dirAccepted_iff:
  assumes "in_range s"
  shows "dirAccepted now cfg s \<longleftrightarrow>
    \<bar>sint (cycleDir now cfg s) - sint (prevDir s)\<bar> < dirDevLimit (sint (cycleCmps now s)) \<or>
    360 - dirDevLimit (sint (cycleCmps now s)) < \<bar>sint (cycleDir now cfg s) - sint (prevDir s)\<bar>"
proof -
  have "- 2147483648 < sint (cycleDir now cfg s - prevDir s)"
    using dir_dev_sint (2) [OF assms, of now cfg] by linarith
  then show ?thesis
    unfolding dirAccepted_def by (simp add: checkDirDev_iff dir_dev_sint (1) [OF assms])
qed

lemma wrap_pair_accepted: "checkDirDev cmps (3 - 358)"
proof -
  have "sint (3 - 358 :: 32 word) = - 355"
    by simp
  then show ?thesis
    by (simp add: checkDirDev_iff dirDevLimit_def)
qed

lemma calc_unfold:
  assumes "snapSpeedTime now s \<noteq> 0"
  shows "calcWindSpeedAndDir now cfg s =
      (if speedAccepted now s
       then map_option (\<lambda>s'. s'\<lparr>prevSpeed := cycleCmps now s\<rparr>)
              (resolveDirection cfg (snapSpeedTime now s) (directionTime s) (cycleCmps now s)
                 (s\<lparr>rps := cycleRps now s, speedOut := cycleCmps now s\<rparr>))
       else Some (s\<lparr>rps := cycleRps now s, ignoreNextReading := True,
                    prevSpeed := cycleCmps now s\<rparr>))"
  using assms
  by (simp add: calcWindSpeedAndDir_def udiv_def Let_def word_greater_zero_iff
      speedAccepted_def cycleCmps_def cycleRps_def)

lemma speed_band_edges:
  "checkSpeedDev 499 499 \<and> \<not> checkSpeedDev 499 500 \<and>
   checkSpeedDev 500 999 \<and> \<not> checkSpeedDev 500 1000 \<and>
   checkSpeedDev 3999 999 \<and> \<not> checkSpeedDev 3999 1000 \<and>
   checkSpeedDev 4000 2999 \<and> \<not> checkSpeedDev 4000 3000"
  by code_simp

section \<open>The direction in integers\<close>

lemma uint_sub_offset:
  assumes "sint off \<le> uint q" and "uint q \<le> 360"
  shows "uint (q - off :: 32 word) = uint q - sint off"
proof -
  have "q - off = word_of_int (uint q - sint off)"
    by simp
  then have "uint (q - off) = (uint q - sint off) mod 4294967296"
    by (simp only: uint_word_of_int) simp
  moreover have "0 \<le> uint q - sint off" "uint q - sint off < 4294967296"
    using assms sint_bounds32 [of off] by linarith+
  ultimately show ?thesis by simp
qed

lemma windDirectionOf_formula:
  assumes "sint off \<le> uint q" and "uint q \<le> 360"
  shows "sint (windDirectionOf off q) = 360 - (uint q - sint off) mod 360"
  by (simp add: windDirectionOf_sint uint_mod_distrib uint_sub_offset [OF assms])

lemma cycle_quotient:
  assumes "uint dt * 360 < 4294967296"
  shows "uint (dt * 360 div st :: 32 word) = uint dt * 360 div uint st"
proof -
  have "uint dt * uint (360 :: 32 word) < 2 ^ LENGTH(32)"
    using assms by simp
  then have "uint (dt * 360) = uint dt * uint (360 :: 32 word)"
    by (simp only: uint_mult_lem)
  then show ?thesis
    by (simp add: uint_div_distrib)
qed

lemma cycle_quotient_le:
  assumes "(dt :: 32 word) \<le> st" and "st \<noteq> 0"
  shows "uint dt * 360 div uint st \<le> 360"
proof -
  have "uint dt \<le> uint st"
    using assms (1) by (simp add: word_le_def)
  moreover have "0 < uint st"
    using assms (2) uint_nonnegative [of st] by (simp add: uint_0_iff order_less_le)
  ultimately have "uint dt * 360 div uint st \<le> uint st * 360 div uint st"
    by (intro zdiv_mono1) simp_all
  also have "\<dots> = 360"
    using \<open>0 < uint st\<close> by simp
  finally show ?thesis .
qed

lemma cycleDir_formula:
  assumes "directionTime s \<le> snapSpeedTime now s" and "snapSpeedTime now s \<noteq> 0"
    and "uint (directionTime s) * 360 < 4294967296"
    and "sint (dir_offset cfg) \<le> uint (directionTime s) * 360 div uint (snapSpeedTime now s)"
  shows "sint (cycleDir now cfg s) =
    360 - (uint (directionTime s) * 360 div uint (snapSpeedTime now s) - sint (dir_offset cfg)) mod 360"
  unfolding cycleDir_def
  using assms (4) cycle_quotient_le [OF assms (1,2)]
  by (subst windDirectionOf_formula) (simp_all add: cycle_quotient [OF assms (3)])

lemma calc_direction_effect:
  "\<exists>s'. calcWindSpeedAndDir now cfg s = Some s' \<and>
     (snapSpeedTime now s = 0 \<or> \<not> speedAccepted now s \<longrightarrow>
        dirOut s' = dirOut s \<and> prevDir s' = prevDir s) \<and>
     (snapSpeedTime now s \<noteq> 0 \<and> speedAccepted now s \<and>
      snapSpeedTime now s < directionTime s \<longrightarrow>
        dirOut s' = dirOut s \<and> prevDir s' = prevDir s \<and>
        speedOut s' = cycleCmps now s \<and> prevSpeed s' = cycleCmps now s) \<and>
     (snapSpeedTime now s \<noteq> 0 \<and> speedAccepted now s \<and>
      directionTime s \<le> snapSpeedTime now s \<longrightarrow>
        prevDir s' = cycleDir now cfg s \<and>
        dirOut s' = (if dirAccepted now cfg s
                     then filterDir (filter_gain cfg) (cycleDir now cfg s) (dirOut s)
                     else dirOut s))"
  by (cases rule: calc_cases [of now s])
    (auto simp add: calc_stalled calc_rejected calc_accepted_late calc_accepted_dir)

section \<open>The output filter in integers\<close>

lemma sint_add_360:
  assumes "\<bar>sint x\<bar> \<le> 1000000"
  shows "sint (x + 360 :: 32 word) = sint x + 360" "sint (x - 360) = sint x - 360"
proof -
  show "sint (x + 360) = sint x + 360"
    using assms by (subst sint_add32) simp_all
  show "sint (x - 360) = sint x - 360"
    using assms by (subst sint_sub32) simp_all
qed

lemma shortestDelta_sint:
  assumes "\<bar>sint x\<bar> \<le> 1000000"
  shows "sint (shortestDelta x) = wrapDelta (sint x)"
  by (simp add: shortestDelta_def wrapDelta_def word_sless_alt sint_add_360 [OF assms])

lemma c_round_bound:
  assumes "\<bar>x\<bar> \<le> of_int n"
  shows "\<bar>c_round x\<bar> \<le> n"
proof (cases "0 \<le> x")
  case True
  then have "0 \<le> \<lfloor>x + 1 / 2\<rfloor>"
    by simp
  moreover have "\<lfloor>x + 1 / 2\<rfloor> \<le> n"
    using assms True by (simp add: floor_le_iff)
  ultimately show ?thesis
    using True by (simp add: c_round_def)
next
  case False
  then have "\<lceil>x - 1 / 2\<rceil> \<le> 0"
    by (simp add: ceiling_le_iff)
  moreover have "- n \<le> \<lceil>x - 1 / 2\<rceil>"
    using assms False by (simp add: le_ceiling_iff)
  ultimately show ?thesis
    using False by (simp add: c_round_def)
qed

lemma c_round_of_int: "c_round (of_int k) = k"
  by (simp add: c_round_def) linarith

lemma smod_lifted:
  "(if a smod 360 < 0 then a smod 360 + 360 else a smod 360) = a mod (360 :: int)"
  by (auto simp add: signed_modulo_int_def sgn_if zmod_zminus1_eq_if)

lemma wrapDelta_bound:
  assumes "- 360 \<le> e" and "e \<le> 360"
  shows "\<bar>wrapDelta e\<bar> \<le> 180"
  using assms by (auto simp add: wrapDelta_def)

lemma wrapDelta_cong: "(s + wrapDelta (d - s)) mod 360 = d mod 360"
  by (simp add: wrapDelta_def mod_simps)


section \<open>Rounding to single precision\<close>

lemma halvings_ge: "0 \<le> halvings n x"
  by (induction n x rule: halvings.induct) auto

lemma doublings_ge: "- int n \<le> doublings n x"
  by (induction n x rule: doublings.induct) auto

lemma doublings_le: "doublings n x \<le> 0"
  by (induction n x rule: doublings.induct) auto

lemma halvings_le:
  "x < 2 powi (b + 1) \<Longrightarrow> 0 \<le> b \<Longrightarrow> halvings n x \<le> b"
proof (induction n x arbitrary: b rule: halvings.induct)
  case (1 x)
  then show ?case by simp
next
  case (2 n x)
  show ?case
  proof (cases "x < 2")
    case True
    with 2 show ?thesis by simp
  next
    case False
    have "b \<noteq> 0"
      using False "2.prems" by auto
    with "2.prems" have b: "0 \<le> b - 1" by simp
    have "2 powi (b + 1) = (2 :: rat) powi (b - 1 + 1) * 2"
      using b by (simp add: power_int_add)
    with "2.prems" have "x / 2 < 2 powi (b - 1 + 1)"
      by simp
    from "2.IH" [OF False this b] False show ?thesis by simp
  qed
qed

lemma halvings_below: "1 \<le> x \<Longrightarrow> 2 powi (halvings n x) \<le> x"
proof (induction n x rule: halvings.induct)
  case (1 x)
  then show ?case by simp
next
  case (2 n x)
  show ?case
  proof (cases "x < 2")
    case True
    with 2 show ?thesis by simp
  next
    case False
    then have "2 powi (halvings n (x / 2)) \<le> x / 2"
      using "2.IH" by simp
    then show ?thesis
      using False halvings_ge [of n "x / 2"] by (simp add: power_int_add)
  qed
qed

lemma doublings_below:
  "doublings n x = - int n \<or> 2 powi (doublings n x) \<le> x"
proof (induction n x rule: doublings.induct)
  case (1 x)
  then show ?case by simp
next
  case (2 n x)
  show ?case
  proof (cases "1 \<le> x")
    case True
    then show ?thesis by simp
  next
    case False
    from "2.IH" [OF False] show ?thesis
    proof
      assume "doublings n (2 * x) = - int n"
      with False show ?thesis by simp
    next
      assume "2 powi (doublings n (2 * x)) \<le> 2 * x"
      moreover have "(2 :: rat) powi (doublings n (2 * x)) = 2 powi (doublings n (2 * x) - 1) * 2"
        by (simp add: power_int_diff)
      ultimately show ?thesis using False by simp
    qed
  qed
qed

lemma exponent32_ge: "- 126 \<le> exponent32 x"
  using halvings_ge [of 127 x] doublings_ge [of 126 x] by (simp add: exponent32_def)

lemma exponent32_le:
  assumes "x < 2 powi (b + 1)" and "0 \<le> b"
  shows "exponent32 x \<le> b"
  using halvings_le [OF assms, of 127] doublings_le [of 126 x] assms (2)
  by (simp add: exponent32_def)

lemma exponent32_cases: "exponent32 x = - 126 \<or> 2 powi (exponent32 x) \<le> x"
  using halvings_below [of x 127] doublings_below [of 126 x]
  by (auto simp add: exponent32_def)

lemma round_to_even_of_int: "round_to_even (of_int j) = j"
  by (simp add: round_to_even_def)

lemma round_to_even_near: "\<bar>of_int (round_to_even q) - q\<bar> \<le> 1"
  unfolding round_to_even_def Let_def by (auto simp: abs_le_iff) linarith+

text \<open>An integer below \<open>2^24\<close> in magnitude is a float.\<close>

lemma fl32_of_int:
  assumes "\<bar>k\<bar> < 16777216"
  shows "fl32 (of_int k) = of_int k"
proof -
  define e where "e = exponent32 \<bar>rat_of_int k\<bar>"
  define n where "n = nat (23 - e)"
  have "\<bar>rat_of_int k\<bar> < 2 powi (23 + 1)"
    using assms by (simp flip: of_int_abs)
  then have "e \<le> 23"
    unfolding e_def by (rule exponent32_le) simp
  then have en: "e - 23 = - int n"
    by (simp add: n_def)
  have u: "(2 :: rat) powi (e - 23) = inverse (2 ^ n)"
    unfolding en by (simp add: power_int_minus)
  have "rat_of_int k / inverse (2 ^ n) = of_int (k * 2 ^ n)"
    by (simp add: field_simps)
  then have "round_to_even (rat_of_int k / inverse (2 ^ n)) = k * 2 ^ n"
    by (simp only: round_to_even_of_int)
  then show ?thesis
    unfolding fl32_def Let_def e_def [symmetric] u by (simp add: field_simps)
qed

text \<open>Rounding moves a value by at most one step of its exponent.\<close>

lemma fl32_bound: "\<bar>fl32 x\<bar> \<le> 2 * \<bar>x\<bar> + 1"
proof -
  define e where "e = exponent32 \<bar>x\<bar>"
  define u :: rat where "u = 2 powi (e - 23)"
  have u0: "0 < u"
    by (simp add: u_def)
  have "u \<le> 2 powi e"
    unfolding u_def by (intro power_int_increasing) simp_all
  moreover have "(2 :: rat) powi (- 126) \<le> 2 powi 0"
    by (intro power_int_increasing) simp_all
  moreover have "e = - 126 \<or> 2 powi e \<le> \<bar>x\<bar>"
    unfolding e_def by (rule exponent32_cases)
  ultimately have u1: "u \<le> \<bar>x\<bar> + 1"
    by auto
  have "\<bar>of_int (round_to_even (x / u)) - x / u\<bar> * u \<le> 1 * u"
    using u0 by (intro mult_right_mono round_to_even_near) simp
  moreover have "\<bar>of_int (round_to_even (x / u)) - x / u\<bar> * u
      = \<bar>of_int (round_to_even (x / u)) * u - x\<bar>"
    using u0 by (simp add: abs_mult_pos [of u] left_diff_distrib)
  ultimately have "\<bar>of_int (round_to_even (x / u)) * u - x\<bar> \<le> u"
    by simp
  then have "\<bar>of_int (round_to_even (x / u)) * u\<bar> \<le> \<bar>x\<bar> + u"
    by linarith
  with u1 have main: "\<bar>of_int (round_to_even (x / u)) * u\<bar> \<le> 2 * \<bar>x\<bar> + 1"
    by linarith
  show ?thesis
  proof (cases "x = 0")
    case True
    then show ?thesis by (simp add: fl32_def)
  next
    case False
    then have "fl32 x = of_int (round_to_even (x / u)) * u"
      by (simp add: fl32_def Let_def u_def e_def)
    with main show ?thesis by simp
  qed
qed

lemma gain_product_bound:
  assumes "\<bar>k\<bar> \<le> 180" and "\<bar>g\<bar> \<le> 1000000"
  shows "\<bar>c_round (fl32 (g * of_int k))\<bar> \<le> 360000001"
proof -
  have "\<bar>rat_of_int k\<bar> \<le> 180"
    using assms (1) by (simp flip: of_int_abs)
  with assms (2) have "\<bar>g\<bar> * \<bar>rat_of_int k\<bar> \<le> 1000000 * 180"
    by (intro mult_mono) simp_all
  then have "\<bar>g * of_int k\<bar> \<le> 180000000"
    by (simp add: abs_mult)
  then have "\<bar>fl32 (g * of_int k)\<bar> \<le> of_int 360000001"
    using fl32_bound [of "g * of_int k"] by simp
  then show ?thesis
    by (rule c_round_bound)
qed

lemma scaledDelta_sint:
  assumes "sint delta = k" and "\<bar>k\<bar> \<le> 180" and "\<bar>g\<bar> \<le> 1000000"
  shows "sint (scaledDelta g delta) = c_round (fl32 (g * of_int k))"
proof -
  have conv: "fl32 (of_int k) = of_int k"
    using assms (2) by (intro fl32_of_int) linarith
  have "\<bar>c_round (fl32 (g * of_int k))\<bar> \<le> 360000001"
    using assms (2,3) by (rule gain_product_bound)
  then show ?thesis
    unfolding scaledDelta_def assms (1) conv by (intro sint_in_range32) linarith+
qed

lemma filterDir_sint:
  assumes "0 \<le> sint s" and "sint s < 360" and "0 \<le> sint d" and "sint d \<le> 360"
    and "\<bar>g\<bar> \<le> 1000000"
  shows "sint (filterDir g d s) =
    (sint s + c_round (fl32 (g * of_int (wrapDelta (sint d - sint s))))) mod 360"
proof -
  define e where "e = wrapDelta (sint d - sint s)"
  define c where "c = c_round (fl32 (g * of_int e))"
  have ds: "sint (d - s) = sint d - sint s"
    using assms by (intro sint_sub32) linarith+
  have sd: "sint (shortestDelta (d - s)) = e"
    unfolding e_def using assms by (subst shortestDelta_sint) (simp_all add: ds)
  have eb: "\<bar>e\<bar> \<le> 180"
    unfolding e_def using assms by (intro wrapDelta_bound) linarith+
  have wc: "sint (scaledDelta g (shortestDelta (d - s))) = c"
    unfolding c_def using sd eb assms (5) by (rule scaledDelta_sint)
  have cb: "\<bar>c\<bar> \<le> 360000001"
    unfolding c_def using eb assms (5) by (rule gain_product_bound)
  have sum: "sint (s + scaledDelta g (shortestDelta (d - s))) = sint s + c"
    using assms cb by (subst sint_add32) (simp_all add: wc)
  define m where "m = smod_long (s + scaledDelta g (shortestDelta (d - s))) 360"
  have m: "sint m = (sint s + c) smod 360"
    unfolding m_def by (simp add: sint_smod_long sum)
  have "(sint s + c) smod 360 \<in> {- \<bar>360\<bar> + 1..\<bar>360\<bar> - 1}"
    by (rule smod_int_range) simp
  then have "- 359 \<le> sint m" "sint m \<le> 359"
    using m by simp_all
  then have lift: "sint (m + 360) = sint m + 360"
    by (subst sint_add32) simp_all
  have "filterDir g d s = (if m <s 0 then m + 360 else m)"
    unfolding filterDir_def Let_def m_def by (rule refl)
  then have "sint (filterDir g d s) = (if sint m < 0 then sint m + 360 else sint m)"
    by (simp add: word_sless_alt lift)
  also have "\<dots> = (sint s + c) mod 360"
    unfolding m by (rule smod_lifted)
  finally show ?thesis
    by (simp add: c_def e_def)
qed

lemma filterDir_unit_gain:
  assumes "0 \<le> sint s" and "sint s < 360" and "0 \<le> sint d" and "sint d \<le> 360"
  shows "sint (filterDir 1 d s) = sint d mod 360"
proof -
  have "\<bar>wrapDelta (sint d - sint s)\<bar> \<le> 180"
    using assms by (intro wrapDelta_bound) linarith+
  then have "fl32 (of_int (wrapDelta (sint d - sint s))) = of_int (wrapDelta (sint d - sint s))"
    by (intro fl32_of_int) linarith
  then show ?thesis
    using assms by (subst filterDir_sint) (simp_all add: c_round_of_int wrapDelta_cong)
qed

lemma calc_filter_effect:
  assumes "snapSpeedTime now s \<noteq> 0" and "speedAccepted now s"
    and "directionTime s \<le> snapSpeedTime now s" and "dirAccepted now cfg s"
  shows "\<exists>s'. calcWindSpeedAndDir now cfg s = Some s' \<and>
    dirOut s' = filterDir (filter_gain cfg) (cycleDir now cfg s) (dirOut s)"
  using assms (4) by (simp add: calc_accepted_dir [OF assms (1-3)])

lemma reachable_filter_ranges:
  assumes "reachable s"
  shows "0 \<le> sint (dirOut s) \<and> sint (dirOut s) < 360 \<and>
    0 \<le> sint (cycleDir now cfg s) \<and> sint (cycleDir now cfg s) \<le> 360"
proof -
  have "1 \<le> sint (cycleDir now cfg s)" "sint (cycleDir now cfg s) \<le> 360"
    by (simp_all add: cycleDir_def windDirectionOf_range)
  then show ?thesis
    using reachable_in_range [OF assms] by (simp add: in_range_def)
qed

section \<open>Further facts about cycles and runs\<close>

lemma calc_never_traps: "calcWindSpeedAndDir now cfg s \<noteq> None"
  by (cases rule: calc_cases [of now s])
    (simp_all add: calc_stalled calc_rejected calc_accepted_late calc_accepted_dir)

lemma calc_timed_out:
  assumes "TIMEOUT < now - speedPulse s"
  shows "calcWindSpeedAndDir now cfg s = Some (s\<lparr>speedOut := 0, prevSpeed := 0\<rparr>)"
  using assms by (intro calc_stalled) (simp add: snapSpeedTime_def)

text \<open>
  With times in microseconds since boot: a cycle that runs more than
  1500000 and less than \<open>2^32\<close> microseconds after the last speed pulse is
  stalled.
\<close>

lemma stall_within_clock_period:
  assumes "speedPulse s = micros t0" and "t0 + 1500000 < t" and "t < t0 + 4294967296"
  shows "calcWindSpeedAndDir (micros t) cfg s = Some (s\<lparr>speedOut := 0, prevSpeed := 0\<rparr>)"
proof (rule calc_timed_out)
  have "micros t - speedPulse s = word_of_int (t - t0)"
    by (simp add: micros_def assms (1))
  then have "uint (micros t - speedPulse s) = (t - t0) mod 4294967296"
    by (simp only: uint_word_of_int) simp
  also have "\<dots> = t - t0"
    using assms (2,3) by simp
  finally show "TIMEOUT < micros t - speedPulse s"
    using assms (2) by (simp add: word_less_def TIMEOUT_def)
qed



lemma clocked_reachable: "clocked s \<Longrightarrow> reachable s"
  by (induction rule: clocked.induct) (auto intro: reachable.intros)



text \<open>
  The bound matters: at an interval of 5000 microseconds, which no clocked
  run records, \<open>rps\<close> is 20000, \<open>rps * rps * 11\<close> does not fit 32 bits and
  the cycle stores speed 0 where the integer formula gives 139535.
\<close>

lemma short_interval_wraps:
  "\<not> debounced (boot\<lparr>speedTime := 5000\<rparr>) \<and>
   sint (cycleRps 0 (boot\<lparr>speedTime := 5000\<rparr>)) = 20000 \<and>
   sint (cycleCmps 0 (boot\<lparr>speedTime := 5000\<rparr>)) = 0 \<and>
   speed_spec 20000 = 139535"
  by code_simp

lemma calc_effects:
  assumes "snapSpeedTime now s \<noteq> 0"
  shows "\<exists>s'. calcWindSpeedAndDir now cfg s = Some s' \<and> prevSpeed s' = cycleCmps now s \<and>
      speedOut s' = (if speedAccepted now s then cycleCmps now s else speedOut s) \<and>
      (\<not> speedAccepted now s \<longrightarrow> dirOut s' = dirOut s \<and> prevDir s' = prevDir s) \<and>
      (speedAccepted now s \<and> snapSpeedTime now s < directionTime s \<longrightarrow>
         dirOut s' = dirOut s \<and> prevDir s' = prevDir s) \<and>
      (speedAccepted now s \<and> directionTime s \<le> snapSpeedTime now s \<longrightarrow>
         prevDir s' = cycleDir now cfg s \<and>
         dirOut s' = (if dirAccepted now cfg s
                      then filterDir (filter_gain cfg) (cycleDir now cfg s) (dirOut s)
                      else dirOut s))"
  using assms
  by (cases rule: calc_cases [of now s])
    (auto simp add: calc_rejected calc_accepted_late calc_accepted_dir)

section \<open>Stall\<close>

text \<open>
  C7. The claim fails once the counter of \<^verbatim>\<open>micros()\<close> has gone round. In
  the run below the only speed pulse comes 1000000 microseconds after boot.
  The cycle at 1100000 publishes 115 cm/s, the cycle at 3000000 finds the
  pulse two seconds old and publishes 0. The cycle \<open>2^32 + 100\<close>
  microseconds after the pulse reads a counter that is 100 ahead of
  \<open>speedPulse\<close>, does not see the timeout and publishes 115 cm/s again.
\<close>

theorem stale_speed_republished_after_clock_wrap:
  "speedPulse one_second_run = micros 1000000 \<and>
   map_option speedOut
     (cycles default_config [micros 1100000] one_second_run) = Some 115 \<and>
   map_option speedOut
     (cycles default_config [micros 1100000, micros 3000000] one_second_run) = Some 0 \<and>
   map_option speedOut
     (cycles default_config
        [micros 1100000, micros 3000000, micros (1000000 + 4294967296 + 100)]
        one_second_run) = Some 115"
  by code_simp

section \<open>The rejection flag\<close>

text \<open>
  C10. A cycle whose speed check rejects sets \<open>ignoreNextReading\<close>. No cycle
  reads the flag: started in two states that differ only in the flag, a cycle
  ends in two states that differ at most in the flag, so \<open>speedOut\<close>,
  \<open>dirOut\<close>, \<open>prevSpeed\<close>, \<open>prevDir\<close> and every other field agree.
\<close>

theorem ignoreNextReading_set_on_rejection_and_never_read:
  "(snapSpeedTime now s \<noteq> 0 \<and> \<not> speedAccepted now s \<longrightarrow>
      (\<exists>s'. calcWindSpeedAndDir now cfg s = Some s' \<and> ignoreNextReading s')) \<and>
   map_option withoutFlag (calcWindSpeedAndDir now cfg (s\<lparr>ignoreNextReading := b\<rparr>)) =
   map_option withoutFlag (calcWindSpeedAndDir now cfg s)"
  by (simp add: calc_flag_blind calc_rejected)

theorem ignoreNextReading_witness:
  "snapSpeedTime 200000 gust_run \<noteq> 0 \<and>
   \<not> speedAccepted 200000 gust_run \<and>
   (\<exists>s'. calcWindSpeedAndDir 200000 default_config gust_run = Some s' \<and>
          ignoreNextReading s')"
proof -
  have 1: "snapSpeedTime 200000 gust_run \<noteq> 0"
    by code_simp
  have 2: "\<not> speedAccepted 200000 gust_run"
    by code_simp
  from 1 2 ignoreNextReading_set_on_rejection_and_never_read
    [of 200000 gust_run default_config False]
  show ?thesis by blast
qed

section \<open>Calibration\<close>



section \<open>Speed plausibility\<close>

text \<open>
  C2. In every cycle of a run whose interval after the timeout test is not 0,
  the speed is accepted exactly when \<open>|cmps - prevSpeed| < L\<close>, with \<open>L\<close>
  500 below 500 cm/s, 1000 from 500 up to 3999 and 3000 from 4000 on. On
  acceptance the cycle writes \<open>cmps\<close> to \<open>speedOut\<close> and goes on with the
  direction part: with the direction interval not above the speed interval
  it stores the resolved direction in \<open>prevDir\<close> and, when the direction
  check accepts, the filtered direction in \<open>dirOut\<close>. On rejection
  \<open>speedOut\<close>, \<open>dirOut\<close> and \<open>prevDir\<close> keep their values. Either way
  \<open>prevSpeed\<close> becomes \<open>cmps\<close>. The edges of the bands: 499 has limit
  500, 500 and 3999 have limit 1000, 4000 has limit 3000.
\<close>

theorem speed_plausibility:
  assumes "reachable s" and "snapSpeedTime now s \<noteq> 0"
  shows "(speedAccepted now s \<longleftrightarrow>
      \<bar>sint (cycleCmps now s) - sint (prevSpeed s)\<bar> < speedDevLimit (sint (cycleCmps now s))) \<and>
    calcWindSpeedAndDir now cfg s =
      (if speedAccepted now s
       then map_option (\<lambda>s'. s'\<lparr>prevSpeed := cycleCmps now s\<rparr>)
              (resolveDirection cfg (snapSpeedTime now s) (directionTime s) (cycleCmps now s)
                 (s\<lparr>rps := cycleRps now s, speedOut := cycleCmps now s\<rparr>))
       else Some (s\<lparr>rps := cycleRps now s, ignoreNextReading := True,
                    prevSpeed := cycleCmps now s\<rparr>)) \<and>
    (\<exists>s'. calcWindSpeedAndDir now cfg s = Some s' \<and> prevSpeed s' = cycleCmps now s \<and>
          speedOut s' = (if speedAccepted now s then cycleCmps now s else speedOut s) \<and>
          (\<not> speedAccepted now s \<longrightarrow> dirOut s' = dirOut s \<and> prevDir s' = prevDir s) \<and>
          (speedAccepted now s \<and> snapSpeedTime now s < directionTime s \<longrightarrow>
             dirOut s' = dirOut s \<and> prevDir s' = prevDir s) \<and>
          (speedAccepted now s \<and> directionTime s \<le> snapSpeedTime now s \<longrightarrow>
             prevDir s' = cycleDir now cfg s \<and>
             dirOut s' = (if dirAccepted now cfg s
                          then filterDir (filter_gain cfg) (cycleDir now cfg s) (dirOut s)
                          else dirOut s))) \<and>
    checkSpeedDev 499 499 \<and> \<not> checkSpeedDev 499 500 \<and>
    checkSpeedDev 500 999 \<and> \<not> checkSpeedDev 500 1000 \<and>
    checkSpeedDev 3999 999 \<and> \<not> checkSpeedDev 3999 1000 \<and>
    checkSpeedDev 4000 2999 \<and> \<not> checkSpeedDev 4000 3000"
  using speedAccepted_iff [OF reachable_in_range [OF assms(1)], of now]
    calc_unfold [OF assms(2), of cfg] calc_effects [OF assms(2), of cfg] speed_band_edges
  by (intro conjI) blast+

theorem speed_plausibility_witness:
  "reachable near_north_run \<and> snapSpeedTime 1100000 near_north_run \<noteq> 0 \<and>
   speedAccepted 1100000 near_north_run \<and>
   directionTime near_north_run \<le> snapSpeedTime 1100000 near_north_run \<and>
   prevDir near_north_run = 0 \<and> dirOut near_north_run = 0 \<and>
   (\<exists>s'. calcWindSpeedAndDir 1100000 default_config near_north_run = Some s' \<and>
         prevSpeed s' = 115 \<and> speedOut s' = 115 \<and> prevDir s' = 350 \<and> dirOut s' = 357) \<and>
   reachable gust_run \<and> snapSpeedTime 200000 gust_run \<noteq> 0 \<and>
   \<not> speedAccepted 200000 gust_run \<and>
   (\<exists>s'. calcWindSpeedAndDir 200000 default_config gust_run = Some s' \<and>
         prevSpeed s' = 1104 \<and> speedOut s' = 0 \<and> dirOut s' = 0 \<and> prevDir s' = 0)"
proof -
  have rA: "reachable near_north_run"
    unfolding near_north_run_def
    by (intro reachable.speed_pulse reachable.dir_pulse reachable.at_boot)
  have rR: "reachable gust_run"
    unfolding gust_run_def by (intro reachable.speed_pulse reachable.at_boot)
  have nA: "snapSpeedTime 1100000 near_north_run \<noteq> 0"
    and nR: "snapSpeedTime 200000 gust_run \<noteq> 0"
    by code_simp+
  have aA: "speedAccepted 1100000 near_north_run"
    and dA: "directionTime near_north_run \<le> snapSpeedTime 1100000 near_north_run"
    and aR: "\<not> speedAccepted 200000 gust_run"
    by code_simp+
  have vA: "cycleCmps 1100000 near_north_run = 115"
    "cycleDir 1100000 default_config near_north_run = 350"
    "dirAccepted 1100000 default_config near_north_run"
    "filterDir (filter_gain default_config) 350 0 = 357"
    "prevDir near_north_run = 0" "dirOut near_north_run = 0"
    by code_simp+
  have vR: "cycleCmps 200000 gust_run = 1104" "speedOut gust_run = 0"
    "dirOut gust_run = 0" "prevDir gust_run = 0"
    by code_simp+
  from speed_plausibility [OF rA nA, of default_config]
  obtain sA where sA:
    "calcWindSpeedAndDir 1100000 default_config near_north_run = Some sA"
    "prevSpeed sA = cycleCmps 1100000 near_north_run"
    "speedOut sA =
       (if speedAccepted 1100000 near_north_run
        then cycleCmps 1100000 near_north_run else speedOut near_north_run)"
    "speedAccepted 1100000 near_north_run \<and>
     directionTime near_north_run \<le> snapSpeedTime 1100000 near_north_run \<longrightarrow>
       prevDir sA = cycleDir 1100000 default_config near_north_run \<and>
       dirOut sA =
         (if dirAccepted 1100000 default_config near_north_run
          then filterDir (filter_gain default_config)
                 (cycleDir 1100000 default_config near_north_run) (dirOut near_north_run)
          else dirOut near_north_run)"
    by blast
  from speed_plausibility [OF rR nR, of default_config]
  obtain sR where sR:
    "calcWindSpeedAndDir 200000 default_config gust_run = Some sR"
    "prevSpeed sR = cycleCmps 200000 gust_run"
    "speedOut sR =
       (if speedAccepted 200000 gust_run
        then cycleCmps 200000 gust_run else speedOut gust_run)"
    "\<not> speedAccepted 200000 gust_run \<longrightarrow>
       dirOut sR = dirOut gust_run \<and> prevDir sR = prevDir gust_run"
    by blast
  from sA (2,3,4) aA dA have
    "prevSpeed sA = 115 \<and> speedOut sA = 115 \<and> prevDir sA = 350 \<and> dirOut sA = 357"
    by (simp add: vA)
  moreover from sR (2,3,4) aR have
    "prevSpeed sR = 1104 \<and> speedOut sR = 0 \<and> dirOut sR = 0 \<and> prevDir sR = 0"
    unfolding vR by simp
  ultimately show ?thesis
    using rA rR nA nR aA dA aR vA (5,6) by (simp add: sA (1) sR (1))
qed

section \<open>Direction plausibility\<close>

text \<open>
  C3. In every cycle of a run, the direction check on the deviation
  \<open>windDirection - prevDir\<close> accepts exactly when \<open>|dev| < L\<close> or
  \<open>|dev| > 360 - L\<close>, with \<open>L\<close> 25 below 500 cm/s, 18 from 500 up to 3999
  and 10 from 4000 on. A new direction of 3 after a previous direction of 358
  (deviation -355) is accepted at every speed.
\<close>

theorem direction_plausibility:
  assumes "reachable s"
  shows "(dirAccepted now cfg s \<longleftrightarrow>
      \<bar>sint (cycleDir now cfg s) - sint (prevDir s)\<bar> < dirDevLimit (sint (cycleCmps now s)) \<or>
      360 - dirDevLimit (sint (cycleCmps now s)) < \<bar>sint (cycleDir now cfg s) - sint (prevDir s)\<bar>) \<and>
    checkDirDev cmps (3 - 358)"
proof (rule conjI)
  show "dirAccepted now cfg s \<longleftrightarrow>
      \<bar>sint (cycleDir now cfg s) - sint (prevDir s)\<bar> < dirDevLimit (sint (cycleCmps now s)) \<or>
      360 - dirDevLimit (sint (cycleCmps now s)) < \<bar>sint (cycleDir now cfg s) - sint (prevDir s)\<bar>"
    using assms by (intro dirAccepted_iff reachable_in_range)
  show "checkDirDev cmps (3 - 358)"
    by (rule wrap_pair_accepted)
qed

theorem direction_plausibility_witness:
  "reachable half_turn_run \<and>
   sint (cycleDir 1100000 default_config half_turn_run) = 180 \<and>
   \<not> dirAccepted 1100000 default_config half_turn_run \<and>
   checkDirDev 4000 (3 - 358)"
proof -
  have r: "reachable half_turn_run"
    unfolding half_turn_run_def
    by (intro reachable.speed_pulse reachable.dir_pulse reachable.at_boot)
  have e: "sint (cycleDir 1100000 default_config half_turn_run) = 180"
    "sint (prevDir half_turn_run) = 0"
    "dirDevLimit (sint (cycleCmps 1100000
       half_turn_run)) = 25"
    by code_simp+
  from direction_plausibility [OF r, of 1100000 default_config 4000]
  show ?thesis
    using r by (simp add: e)
qed

section \<open>Direction resolution\<close>

text \<open>
  C4, as amended. Every cycle returns. A cycle that is stalled or rejects the
  speed leaves \<open>dirOut\<close> and \<open>prevDir\<close> alone; so does a cycle that accepts
  the speed and finds the direction interval longer than the speed interval,
  which still writes \<open>cmps\<close> to \<open>speedOut\<close> and \<open>prevSpeed\<close>. Otherwise
  the resolved direction, which the cycle stores in \<open>prevDir\<close>, lies in
  1..360, for every offset; and when \<open>directionTime * 360\<close> fits 32 bits and
  the offset is not above the quotient \<open>directionTime * 360 / speedTime\<close>, it
  is \<open>360 - ((quotient - offset) mod 360)\<close> with the non-negative remainder.
\<close>

theorem direction_resolution:
  "\<exists>s'. calcWindSpeedAndDir now cfg s = Some s' \<and>
     (snapSpeedTime now s = 0 \<or> \<not> speedAccepted now s \<longrightarrow>
        dirOut s' = dirOut s \<and> prevDir s' = prevDir s) \<and>
     (snapSpeedTime now s \<noteq> 0 \<and> speedAccepted now s \<and>
      snapSpeedTime now s < directionTime s \<longrightarrow>
        dirOut s' = dirOut s \<and> prevDir s' = prevDir s \<and>
        speedOut s' = cycleCmps now s \<and> prevSpeed s' = cycleCmps now s) \<and>
     (snapSpeedTime now s \<noteq> 0 \<and> speedAccepted now s \<and>
      directionTime s \<le> snapSpeedTime now s \<longrightarrow>
        prevDir s' = cycleDir now cfg s \<and>
        1 \<le> sint (cycleDir now cfg s) \<and> sint (cycleDir now cfg s) \<le> 360 \<and>
        (uint (directionTime s) * 360 < 4294967296 \<and>
         sint (dir_offset cfg) \<le> uint (directionTime s) * 360 div uint (snapSpeedTime now s) \<longrightarrow>
           sint (cycleDir now cfg s) =
             360 - (uint (directionTime s) * 360 div uint (snapSpeedTime now s)
                    - sint (dir_offset cfg)) mod 360))"
proof -
  from calc_direction_effect [of now cfg s] obtain s' where
    s': "calcWindSpeedAndDir now cfg s = Some s'"
    and skip: "snapSpeedTime now s = 0 \<or> \<not> speedAccepted now s \<longrightarrow>
        dirOut s' = dirOut s \<and> prevDir s' = prevDir s"
    and late: "snapSpeedTime now s \<noteq> 0 \<and> speedAccepted now s \<and>
      snapSpeedTime now s < directionTime s \<longrightarrow>
        dirOut s' = dirOut s \<and> prevDir s' = prevDir s \<and>
        speedOut s' = cycleCmps now s \<and> prevSpeed s' = cycleCmps now s"
    and res: "snapSpeedTime now s \<noteq> 0 \<and> speedAccepted now s \<and>
      directionTime s \<le> snapSpeedTime now s \<longrightarrow> prevDir s' = cycleDir now cfg s"
    by blast
  have range: "1 \<le> sint (cycleDir now cfg s)" "sint (cycleDir now cfg s) \<le> 360"
    by (simp_all add: cycleDir_def windDirectionOf_range)
  have formula: "sint (cycleDir now cfg s) =
      360 - (uint (directionTime s) * 360 div uint (snapSpeedTime now s)
             - sint (dir_offset cfg)) mod 360"
    if "snapSpeedTime now s \<noteq> 0" "directionTime s \<le> snapSpeedTime now s"
      "uint (directionTime s) * 360 < 4294967296"
      "sint (dir_offset cfg) \<le> uint (directionTime s) * 360 div uint (snapSpeedTime now s)"
    using that by (intro cycleDir_formula)
  show ?thesis
    using s' skip late res range formula by blast
qed

theorem direction_resolution_witness:
  "snapSpeedTime 2000000 boot = 0 \<and>
   (\<exists>s'. calcWindSpeedAndDir 2000000 default_config boot = Some s' \<and>
      dirOut s' = dirOut boot \<and> prevDir s' = prevDir boot) \<and>
   snapSpeedTime 0 (boot\<lparr>speedTime := 1000000, directionTime := 2000000\<rparr>) \<noteq> 0 \<and>
   speedAccepted 0 (boot\<lparr>speedTime := 1000000, directionTime := 2000000\<rparr>) \<and>
   snapSpeedTime 0 (boot\<lparr>speedTime := 1000000, directionTime := 2000000\<rparr>)
     < directionTime (boot\<lparr>speedTime := 1000000, directionTime := 2000000\<rparr>) \<and>
   (\<exists>s'. calcWindSpeedAndDir 0 default_config
            (boot\<lparr>speedTime := 1000000, directionTime := 2000000\<rparr>) = Some s' \<and>
      dirOut s' = 0 \<and> prevDir s' = 0 \<and> speedOut s' = 115 \<and> prevSpeed s' = 115) \<and>
   snapSpeedTime 1100000 half_turn_run \<noteq> 0 \<and> speedAccepted 1100000 half_turn_run \<and>
   directionTime half_turn_run \<le> snapSpeedTime 1100000 half_turn_run \<and>
   uint (directionTime half_turn_run) * 360 < 4294967296 \<and>
   sint (dir_offset (default_config\<lparr>dir_offset := - 10\<rparr>))
     \<le> uint (directionTime half_turn_run) * 360 div uint (snapSpeedTime 1100000 half_turn_run) \<and>
   (\<exists>s'. calcWindSpeedAndDir 1100000 (default_config\<lparr>dir_offset := - 10\<rparr>) half_turn_run = Some s' \<and>
      sint (prevDir s') = 170)"
proof -
  let ?late = "boot\<lparr>speedTime := 1000000, directionTime := 2000000\<rparr>"
  let ?cfg = "default_config\<lparr>dir_offset := - 10\<rparr>"
  have a: "snapSpeedTime 2000000 boot = 0"
    by code_simp
  have b: "snapSpeedTime 0 ?late \<noteq> 0" "speedAccepted 0 ?late"
    "snapSpeedTime 0 ?late < directionTime ?late"
    by code_simp+
  have bv: "dirOut ?late = 0" "prevDir ?late = 0" "cycleCmps 0 ?late = 115"
    by code_simp+
  have c: "snapSpeedTime 1100000 half_turn_run \<noteq> 0" "speedAccepted 1100000 half_turn_run"
    "directionTime half_turn_run \<le> snapSpeedTime 1100000 half_turn_run"
    "uint (directionTime half_turn_run) * 360 < 4294967296"
    "sint (dir_offset ?cfg)
     \<le> uint (directionTime half_turn_run) * 360 div uint (snapSpeedTime 1100000 half_turn_run)"
    by code_simp+
  have cv: "360 - (uint (directionTime half_turn_run) * 360
      div uint (snapSpeedTime 1100000 half_turn_run) - sint (dir_offset ?cfg)) mod 360 = 170"
    by code_simp
  from direction_resolution [of 2000000 default_config boot] a
  have 1: "\<exists>s'. calcWindSpeedAndDir 2000000 default_config boot = Some s' \<and>
      dirOut s' = dirOut boot \<and> prevDir s' = prevDir boot"
    by blast
  from direction_resolution [of 0 default_config ?late] b
  have 2: "\<exists>s'. calcWindSpeedAndDir 0 default_config ?late = Some s' \<and>
      dirOut s' = dirOut ?late \<and> prevDir s' = prevDir ?late \<and>
      speedOut s' = cycleCmps 0 ?late \<and> prevSpeed s' = cycleCmps 0 ?late"
    by blast
  from direction_resolution [of 1100000 ?cfg half_turn_run] c
  have 3: "\<exists>s'. calcWindSpeedAndDir 1100000 ?cfg half_turn_run = Some s' \<and>
      sint (prevDir s') = 360 - (uint (directionTime half_turn_run) * 360
        div uint (snapSpeedTime 1100000 half_turn_run) - sint (dir_offset ?cfg)) mod 360"
    by (metis (no_types, lifting))
  show ?thesis
    using a b c 1 2 [unfolded bv] 3 [unfolded cv] by (intro conjI) assumption+
qed

text \<open>
  C4 as stated fails twice. With no direction pulse after the speed pulse and
  offset 0 the resolved direction is 360, outside 0..359. With offset 10 the
  subtraction is done on \<^verbatim>\<open>unsigned long\<close> and wraps: the code resolves 114,
  the formula gives 10.
\<close>

theorem direction_resolution_counterexample:
  "snapSpeedTime 0 (boot\<lparr>speedTime := 1000000\<rparr>) \<noteq> 0 \<and>
   speedAccepted 0 (boot\<lparr>speedTime := 1000000\<rparr>) \<and>
   directionTime (boot\<lparr>speedTime := 1000000\<rparr>) \<le> snapSpeedTime 0 (boot\<lparr>speedTime := 1000000\<rparr>) \<and>
   map_option (\<lambda>s'. sint (prevDir s'))
     (calcWindSpeedAndDir 0 default_config (boot\<lparr>speedTime := 1000000\<rparr>))
     = Some 360 \<and>
   map_option (\<lambda>s'. sint (prevDir s'))
     (calcWindSpeedAndDir 0 (default_config\<lparr>dir_offset := 10\<rparr>) (boot\<lparr>speedTime := 1000000\<rparr>))
     = Some 114 \<and>
   360 - (uint (directionTime (boot\<lparr>speedTime := 1000000\<rparr>)) * 360
            div uint (snapSpeedTime 0 (boot\<lparr>speedTime := 1000000\<rparr>))
          - sint (10 :: cint)) mod 360 = 10"
  by code_simp

section \<open>The output filter\<close>

text \<open>
  C5. For a direction \<open>d\<close> in 0..360, a smoothed direction \<open>s\<close> in 0..359
  and a gain of magnitude up to 1000000, the filter computes the delta
  \<open>d - s\<close>, adds 360 below -180 and subtracts 360 above 180, and returns
  \<open>(s + round (gain * delta)) mod 360\<close>, which lies in 0..359; the product
  is the \<^verbatim>\<open>float\<close> product, rounded to single precision before \<^verbatim>\<open>round\<close>.
  A cycle of a run that accepts a direction stores exactly this in
  \<open>dirOut\<close>. With \<open>s = 350\<close>, \<open>d = 10\<close> and gain 1/2 the delta is 20 and
  the result 0. With the float nearest to 0.7 as gain, \<open>s = 0\<close> and
  \<open>d = 5\<close> the product rounds to 3.5 and the result is 4.
\<close>

theorem direction_smoother:
  "(0 \<le> sint s \<and> sint s < 360 \<and> 0 \<le> sint d \<and> sint d \<le> 360 \<and> \<bar>g\<bar> \<le> 1000000 \<longrightarrow>
      sint (shortestDelta (d - s)) = wrapDelta (sint d - sint s) \<and>
      sint (filterDir g d s) =
        (sint s + c_round (fl32 (g * of_int (wrapDelta (sint d - sint s))))) mod 360 \<and>
      0 \<le> sint (filterDir g d s) \<and> sint (filterDir g d s) < 360) \<and>
   (reachable st \<and> snapSpeedTime now st \<noteq> 0 \<and> speedAccepted now st \<and>
    directionTime st \<le> snapSpeedTime now st \<and> dirAccepted now cfg st \<and>
    \<bar>filter_gain cfg\<bar> \<le> 1000000 \<longrightarrow>
      (\<exists>s'. calcWindSpeedAndDir now cfg st = Some s' \<and>
         sint (dirOut s') =
           (sint (dirOut st) + c_round (fl32 (filter_gain cfg *
              of_int (wrapDelta (sint (cycleDir now cfg st) - sint (dirOut st)))))) mod 360)) \<and>
   sint (shortestDelta (10 - 350)) = 20 \<and> sint (filterDir (1 / 2) 10 350) = 0 \<and>
   fl32 (7 / 10) = 11744051 / 16777216 \<and> sint (filterDir (11744051 / 16777216) 5 0) = 4"
proof (intro conjI impI)
  assume "0 \<le> sint s \<and> sint s < 360 \<and> 0 \<le> sint d \<and> sint d \<le> 360 \<and> \<bar>g\<bar> \<le> 1000000"
  then have a: "0 \<le> sint s" "sint s < 360" "0 \<le> sint d" "sint d \<le> 360" "\<bar>g\<bar> \<le> 1000000"
    by simp_all
  have e: "sint (d - s) = sint d - sint s"
    using a by (intro sint_sub32) linarith+
  have "\<bar>sint (d - s)\<bar> \<le> 1000000"
    unfolding e using a by linarith
  then show "sint (shortestDelta (d - s)) = wrapDelta (sint d - sint s)"
    by (simp add: shortestDelta_sint e)
  show "sint (filterDir g d s) =
      (sint s + c_round (fl32 (g * of_int (wrapDelta (sint d - sint s))))) mod 360"
    using a by (intro filterDir_sint) simp_all
  show "0 \<le> sint (filterDir g d s)" "sint (filterDir g d s) < 360"
    by (rule filterDir_range)+
next
  assume b: "reachable st \<and> snapSpeedTime now st \<noteq> 0 \<and> speedAccepted now st \<and>
    directionTime st \<le> snapSpeedTime now st \<and> dirAccepted now cfg st \<and>
    \<bar>filter_gain cfg\<bar> \<le> 1000000"
  then obtain s' where s': "calcWindSpeedAndDir now cfg st = Some s'"
    "dirOut s' = filterDir (filter_gain cfg) (cycleDir now cfg st) (dirOut st)"
    using calc_filter_effect [of now st cfg] by blast
  have "sint (filterDir (filter_gain cfg) (cycleDir now cfg st) (dirOut st)) =
      (sint (dirOut st) + c_round (fl32 (filter_gain cfg *
         of_int (wrapDelta (sint (cycleDir now cfg st) - sint (dirOut st)))))) mod 360"
    using b reachable_filter_ranges [of st now cfg] by (intro filterDir_sint) simp_all
  with s' show "\<exists>s'. calcWindSpeedAndDir now cfg st = Some s' \<and>
      sint (dirOut s') =
        (sint (dirOut st) + c_round (fl32 (filter_gain cfg *
           of_int (wrapDelta (sint (cycleDir now cfg st) - sint (dirOut st)))))) mod 360"
    by simp
next
  show "sint (shortestDelta (10 - 350)) = 20"
    by code_simp
  show "sint (filterDir (1 / 2) 10 350) = 0"
    by code_simp
  show "fl32 (7 / 10) = 11744051 / 16777216"
    by code_simp
  show "sint (filterDir (11744051 / 16777216) 5 0) = 4"
    by code_simp
qed

theorem direction_smoother_witness:
  "0 \<le> sint (350 :: cint) \<and> sint (350 :: cint) < 360 \<and>
   0 \<le> sint (10 :: cint) \<and> sint (10 :: cint) \<le> 360 \<and> \<bar>1 / 2 :: rat\<bar> \<le> 1000000 \<and>
   sint (filterDir (1 / 2) 10 350) =
     (350 + c_round (fl32 (1 / 2 * of_int (wrapDelta (10 - 350))))) mod 360 \<and>
   reachable near_north_run \<and> snapSpeedTime 1100000 near_north_run \<noteq> 0 \<and>
   speedAccepted 1100000 near_north_run \<and>
   directionTime near_north_run \<le> snapSpeedTime 1100000 near_north_run \<and>
   dirAccepted 1100000 default_config near_north_run \<and>
   \<bar>filter_gain default_config\<bar> \<le> 1000000 \<and>
   (\<exists>s'. calcWindSpeedAndDir 1100000 default_config near_north_run = Some s' \<and>
      sint (dirOut s') = 357)"
proof -
  have f: "0 \<le> sint (350 :: cint) \<and> sint (350 :: cint) < 360 \<and>
      0 \<le> sint (10 :: cint) \<and> sint (10 :: cint) \<le> 360 \<and> \<bar>1 / 2 :: rat\<bar> \<le> 1000000"
    by simp
  have r: "reachable near_north_run"
    unfolding near_north_run_def
    by (intro reachable.speed_pulse reachable.dir_pulse reachable.at_boot)
  have c: "snapSpeedTime 1100000 near_north_run \<noteq> 0"
    "speedAccepted 1100000 near_north_run"
    "directionTime near_north_run \<le> snapSpeedTime 1100000 near_north_run"
    "dirAccepted 1100000 default_config near_north_run"
    "\<bar>filter_gain default_config\<bar> \<le> 1000000"
    by code_simp+
  have v: "(sint (dirOut near_north_run) + c_round (fl32 (filter_gain default_config *
      of_int (wrapDelta (sint (cycleDir 1100000 default_config near_north_run)
        - sint (dirOut near_north_run)))))) mod 360 = 357"
    by code_simp
  from direction_smoother [where s = 350 and d = 10 and g = "1 / 2" and st = near_north_run
      and now = 1100000 and cfg = default_config]
  show ?thesis
    using f r c unfolding v by simp
qed

text \<open>
  C6. With gain 1 the filter returns \<open>d mod 360\<close>, whatever the smoothed
  direction was, and a cycle of a run that accepts a direction stores the
  resolved direction modulo 360 in \<open>dirOut\<close>.
\<close>

theorem unit_gain_passes_direction_through:
  "(0 \<le> sint s \<and> sint s < 360 \<and> 0 \<le> sint d \<and> sint d \<le> 360 \<longrightarrow>
      sint (filterDir 1 d s) = sint d mod 360) \<and>
   (reachable st \<and> snapSpeedTime now st \<noteq> 0 \<and> speedAccepted now st \<and>
    directionTime st \<le> snapSpeedTime now st \<and> dirAccepted now cfg st \<and>
    filter_gain cfg = 1 \<longrightarrow>
      (\<exists>s'. calcWindSpeedAndDir now cfg st = Some s' \<and>
         sint (dirOut s') = sint (cycleDir now cfg st) mod 360))"
proof (intro conjI impI)
  assume "0 \<le> sint s \<and> sint s < 360 \<and> 0 \<le> sint d \<and> sint d \<le> 360"
  then show "sint (filterDir 1 d s) = sint d mod 360"
    by (intro filterDir_unit_gain) simp_all
next
  assume b: "reachable st \<and> snapSpeedTime now st \<noteq> 0 \<and> speedAccepted now st \<and>
    directionTime st \<le> snapSpeedTime now st \<and> dirAccepted now cfg st \<and>
    filter_gain cfg = 1"
  then obtain s' where s': "calcWindSpeedAndDir now cfg st = Some s'"
    "dirOut s' = filterDir (filter_gain cfg) (cycleDir now cfg st) (dirOut st)"
    using calc_filter_effect [of now st cfg] by blast
  have "sint (filterDir 1 (cycleDir now cfg st) (dirOut st)) = sint (cycleDir now cfg st) mod 360"
    using b reachable_filter_ranges [of st now cfg] by (intro filterDir_unit_gain) simp_all
  with s' b show "\<exists>s'. calcWindSpeedAndDir now cfg st = Some s' \<and>
      sint (dirOut s') = sint (cycleDir now cfg st) mod 360"
    by simp
qed

theorem unit_gain_witness:
  "0 \<le> sint (350 :: cint) \<and> sint (350 :: cint) < 360 \<and>
   0 \<le> sint (10 :: cint) \<and> sint (10 :: cint) \<le> 360 \<and>
   sint (filterDir 1 10 350) = 10 \<and>
   reachable near_north_run \<and> snapSpeedTime 1100000 near_north_run \<noteq> 0 \<and>
   speedAccepted 1100000 near_north_run \<and>
   directionTime near_north_run \<le> snapSpeedTime 1100000 near_north_run \<and>
   dirAccepted 1100000 (default_config\<lparr>filter_gain := 1\<rparr>) near_north_run \<and>
   filter_gain (default_config\<lparr>filter_gain := 1\<rparr>) = 1 \<and>
   (\<exists>s'. calcWindSpeedAndDir 1100000 (default_config\<lparr>filter_gain := 1\<rparr>) near_north_run = Some s' \<and>
      sint (dirOut s') = 350)"
proof -
  have r: "reachable near_north_run"
    unfolding near_north_run_def
    by (intro reachable.speed_pulse reachable.dir_pulse reachable.at_boot)
  have c: "snapSpeedTime 1100000 near_north_run \<noteq> 0"
    "speedAccepted 1100000 near_north_run"
    "directionTime near_north_run \<le> snapSpeedTime 1100000 near_north_run"
    "dirAccepted 1100000 (default_config\<lparr>filter_gain := 1\<rparr>) near_north_run"
    by code_simp+
  have v: "sint (cycleDir 1100000 (default_config\<lparr>filter_gain := 1\<rparr>) near_north_run) mod 360 = 350"
    by code_simp
  from unit_gain_passes_direction_through
    [where s = 350 and d = 10 and st = near_north_run and now = 1100000
      and cfg = "default_config\<lparr>filter_gain := 1\<rparr>"]
  show ?thesis
    using r c unfolding v by simp
qed

section \<open>The speed interrupt and stale direction pulses\<close>

text \<open>
  C8. The guard \<^verbatim>\<open>dirPulse - speedPulse >= 0\<close> compares an \<^verbatim>\<open>unsigned long\<close>
  with 0 and always holds. In \<open>missed_vane_run\<close> a direction pulse at
  150000 is followed by a speed pulse at 200000. At the next speed pulse, at
  500000, the last direction pulse lies before the previous speed pulse, and
  the handler still overwrites \<open>directionTime\<close>, 150000 before, with the
  wrapped difference \<open>150000 - 200000 + 2^32\<close>.
\<close>

theorem readWindSpeed_overwrites_directionTime:
  "dirPulse missed_vane_run < speedPulse missed_vane_run \<and>
   directionTime missed_vane_run = 150000 \<and>
   directionTime (readWindSpeed 500000 500000 500000 True missed_vane_run) = 4294917296"
  by code_simp

section \<open>The previous direction\<close>

text \<open>
  C9, as amended. In a cycle that accepts the speed and resolves a direction
  (the direction interval is not longer than the speed interval), \<open>prevDir\<close>
  becomes the resolved direction whether or not the direction check accepts
  it; when the check rejects, \<open>dirOut\<close> keeps its value.
\<close>

theorem prevDir_follows_every_resolved_direction:
  assumes "snapSpeedTime now s \<noteq> 0" and "speedAccepted now s"
    and "directionTime s \<le> snapSpeedTime now s"
  shows "\<exists>s'. calcWindSpeedAndDir now cfg s = Some s' \<and>
    prevDir s' = cycleDir now cfg s \<and>
    (\<not> dirAccepted now cfg s \<longrightarrow> dirOut s' = dirOut s)"
  by (simp add: calc_accepted_dir [OF assms])

theorem prevDir_witness:
  "snapSpeedTime 1100000 half_turn_run \<noteq> 0 \<and> speedAccepted 1100000 half_turn_run \<and>
   directionTime half_turn_run \<le> snapSpeedTime 1100000 half_turn_run \<and>
   \<not> dirAccepted 1100000 default_config half_turn_run \<and>
   (\<exists>s'. calcWindSpeedAndDir 1100000 default_config half_turn_run = Some s' \<and>
      prevDir s' = 180 \<and> dirOut s' = dirOut half_turn_run)"
proof -
  have c: "snapSpeedTime 1100000 half_turn_run \<noteq> 0" "speedAccepted 1100000 half_turn_run"
    "directionTime half_turn_run \<le> snapSpeedTime 1100000 half_turn_run"
    by code_simp+
  have n: "\<not> dirAccepted 1100000 default_config half_turn_run"
    by code_simp
  have v: "cycleDir 1100000 default_config half_turn_run = 180"
    by code_simp
  from prevDir_follows_every_resolved_direction [OF c, of default_config]
  show ?thesis
    using c n unfolding v by simp
qed

text \<open>
  C9 as stated fails: in the run with the vane half a turn from its reference
  the first cycle rejects the direction 180 (deviation 180 from 0) and still
  sets \<open>prevDir\<close> to 180.
\<close>

theorem prevDir_counterexample:
  "snapSpeedTime 1100000
     half_turn_run \<noteq> 0 \<and>
   speedAccepted 1100000
     half_turn_run \<and>
   directionTime half_turn_run
     \<le> snapSpeedTime 1100000
       half_turn_run \<and>
   \<not> dirAccepted 1100000 default_config half_turn_run \<and>
   prevDir half_turn_run = 0 \<and>
   map_option prevDir (calcWindSpeedAndDir 1100000 default_config half_turn_run) = Some 180"
  by code_simp

end
